theory Spec2Isabelle
  imports Main
begin

section \<open>Data model\<close>

text \<open>
  Modelled from the spec: the class \<open>HaproxyLogLine\<close> (module \<open>haproxy.haproxy_logline\<close>)
  is imported by \<open>haproxy_logfile.py\<close>; its source is not at hand.
  The record holds the attributes that \<open>HaproxyLogFile\<close> reads, typed as section 3 of the
  spec gives them. Timestamps are integers (a point on a discrete time line), durations
  are integers too, as Python's \<open>datetime + timedelta\<close> allows a negative \<open>timedelta\<close>.
  The string attributes are HOL strings: the commands only compare them and slice them,
  which does not depend on what a character is.
\<close>

record log_line =
  valid :: bool
  accept_date :: int
  http_request_method :: string
  http_request_path :: string
  status_code :: int
  time_wait_response :: int
  server_name :: string
  queue_backend :: int
  captured_request_headers :: "string option"

text \<open>
  The text read from the log file is Python 3 \<open>str\<close>: a sequence of Unicode code points.
  \<open>str\<close> turns a literal into such a sequence.
\<close>

type_synonym py_str = "nat list"

definition str :: "string \<Rightarrow> py_str" where
  "str s = map of_char s"

text \<open>The attributes set by \<open>HaproxyLogFile.__init__\<close>.\<close>

record haproxy_log_file =
  logfile :: "string option"
  start_time :: "int option"
  delta :: "int option"
  end_time :: "int option"
  total_lines :: int
  valid_lines :: "log_line list"
  invalid_lines :: "py_str list"

text \<open>
  The exceptions. \<open>ValueError\<close> is the one \<open>parse_file\<close> raises itself,
  \<open>NameError\<close> the one for an unbound local variable, and \<open>FileError\<close> wraps
  whatever \<open>open\<close> or the iteration over the file raises (\<open>OtherFileError\<close>
  stands for any exception of theirs that is not named).
\<close>

datatype file_error = FileNotFoundError | PermissionError | UnicodeDecodeError | OtherFileError

datatype py_error = ValueError | NameError | FileError file_error

text \<open>One entry of the list built by \<open>cmd_top_ips\<close>: the dict \<open>{'ip': .., 'repetitions': ..}\<close>.\<close>

record ip_info =
  ip :: string
  repetitions :: int

text \<open>
  One entry of the list built by \<open>cmd_queue_peaks\<close>: the dict with the keys
  \<open>peak\<close>, \<open>span\<close>, \<open>first\<close> and \<open>last\<close> (the last two are named
  \<open>first_date\<close> and \<open>last_date\<close> here, \<open>last\<close> being a list function of HOL).
  \<open>first\<close> holds the variable \<open>first_on_queue\<close>, which is \<open>None\<close> or a date.
\<close>

record queue_peak =
  peak :: int
  span :: int
  first_date :: "int option"
  last_date :: int

section \<open>Construction\<close>

definition HaproxyLogFile_init ::
  "string option \<Rightarrow> int option \<Rightarrow> int option \<Rightarrow> haproxy_log_file" where
  "HaproxyLogFile_init lf start dl =
     \<lparr> logfile = lf,
       start_time = start,
       delta = dl,
       end_time = (case start of
                     None \<Rightarrow> None
                   | Some s \<Rightarrow> (case dl of None \<Rightarrow> None | Some d \<Rightarrow> Some (s + d))),
       total_lines = 0,
       valid_lines = [],
       invalid_lines = [] \<rparr>"

section \<open>Time window and ordering\<close>

text \<open>\<open>_is_in_time_range\<close>: the two early returns and the two comparisons, in order.\<close>

definition is_in_time_range :: "haproxy_log_file \<Rightarrow> log_line \<Rightarrow> bool" where
  "is_in_time_range self log_line =
     (case start_time self of
        None \<Rightarrow> True
      | Some st \<Rightarrow>
          if st > accept_date log_line then False
          else (case end_time self of
                  None \<Rightarrow> True
                | Some en \<Rightarrow> if en < accept_date log_line then False else True))"

text \<open>
  Python's \<open>sorted(xs, key=k)\<close> is a stable sort by \<open>k\<close>; with \<open>reverse=True\<close>
  CPython reverses the list, sorts it stably and reverses the result, which keeps
  elements of equal key in their original order. \<open>sort_key\<close> of HOL is a stable
  insertion sort.
\<close>

definition sorted_py :: "('a \<Rightarrow> int) \<Rightarrow> bool \<Rightarrow> 'a list \<Rightarrow> 'a list" where
  "sorted_py key reverse xs =
     (if reverse then rev (sort_key key (rev xs)) else sort_key key xs)"

definition sort_lines :: "haproxy_log_file \<Rightarrow> haproxy_log_file" where
  "sort_lines self = self\<lparr>valid_lines := sorted_py accept_date False (valid_lines self)\<rparr>"

section \<open>Ingestion\<close>

text \<open>
  \<open>str.strip()\<close> without argument removes the leading and trailing whitespace. The
  whitespace of a Python 3 \<open>str\<close> is the code points U+0009 to U+000D, U+001C to
  U+0020, U+0085, U+00A0, U+1680, U+2000 to U+200A, U+2028, U+2029, U+202F, U+205F and
  U+3000.
\<close>

definition is_space :: "nat \<Rightarrow> bool" where
  "is_space c =
     ((0x09 \<le> c \<and> c \<le> 0x0D) \<or> (0x1C \<le> c \<and> c \<le> 0x20) \<or> c = 0x85 \<or> c = 0xA0 \<or>
      c = 0x1680 \<or> (0x2000 \<le> c \<and> c \<le> 0x200A) \<or> c = 0x2028 \<or> c = 0x2029 \<or>
      c = 0x202F \<or> c = 0x205F \<or> c = 0x3000)"

definition strip :: "py_str \<Rightarrow> py_str" where
  "strip s = rev (dropWhile is_space (rev (dropWhile is_space s)))"

text \<open>
  The body of the loop \<open>for line in logfile\<close> of \<open>parse_file\<close>, on one line.
  The constructor \<open>HaproxyLogLine\<close> is the parameter \<open>parser\<close>.
\<close>

definition parse_line ::
  "(py_str \<Rightarrow> log_line) \<Rightarrow> haproxy_log_file \<Rightarrow> py_str \<Rightarrow> haproxy_log_file" where
  "parse_line parser self ln =
     (let self1 = self\<lparr>total_lines := total_lines self + 1\<rparr>;
          stripped_line = strip ln;
          parsed_line = parser stripped_line
      in if \<not> valid parsed_line
         then self1\<lparr>invalid_lines := invalid_lines self1 @ [stripped_line]\<rparr>
         else if is_in_time_range self1 parsed_line
         then self1\<lparr>valid_lines := valid_lines self1 @ [parsed_line]\<rparr>
         else self1)"

fun parse_lines ::
  "(py_str \<Rightarrow> log_line) \<Rightarrow> haproxy_log_file \<Rightarrow> py_str list \<Rightarrow> haproxy_log_file" where
  "parse_lines parser self [] = self"
| "parse_lines parser self (ln # rest) = parse_lines parser (parse_line parser self ln) rest"

text \<open>
  The file system, as \<open>parse_file\<close> meets it: \<open>open(path)\<close> raises, or it gives a
  file; iterating over the file yields lines, and then either ends or raises (a line that
  cannot be decoded, a read error).
\<close>

type_synonym opened_file = "py_str list \<times> file_error option"

type_synonym file_system = "string \<Rightarrow> file_error + opened_file"

text \<open>
  \<open>parse_file\<close>. The result is the object after the call, and the exception the call
  raised, if any. The check of \<open>self.logfile\<close> comes first, then \<open>open\<close>, then the
  loop over the lines; an exception of the iteration leaves the loop after the lines read
  so far, and \<open>_sort_lines\<close> runs only when the loop has ended.
\<close>

definition parse_file ::
  "(py_str \<Rightarrow> log_line) \<Rightarrow> file_system \<Rightarrow> haproxy_log_file \<Rightarrow>
     haproxy_log_file \<times> py_error option" where
  "parse_file parser opener self =
     (case logfile self of
        None \<Rightarrow> (self, Some ValueError)
      | Some path \<Rightarrow>
          (case opener path of
             Inl e \<Rightarrow> (self, Some (FileError e))
           | Inr opened \<Rightarrow>
               (let self1 = parse_lines parser self (fst opened)
                in case snd opened of
                     Some e \<Rightarrow> (self1, Some (FileError e))
                   | None \<Rightarrow> (sort_lines self1, None))))"

section \<open>Commands\<close>

definition cmd_counter :: "haproxy_log_file \<Rightarrow> int" where
  "cmd_counter self = int (length (valid_lines self))"

definition cmd_counter_invalid :: "haproxy_log_file \<Rightarrow> int" where
  "cmd_counter_invalid self = int (length (invalid_lines self))"

text \<open>\<open>cmd_slow_requests\<close>: the loop appends to \<open>slow_requests\<close>, the accumulator.\<close>

fun slow_requests_loop :: "int list \<Rightarrow> log_line list \<Rightarrow> int list" where
  "slow_requests_loop slow_requests [] = slow_requests"
| "slow_requests_loop slow_requests (l # ls) =
     (let response_time = time_wait_response l
      in slow_requests_loop
           (if response_time > 1000 then slow_requests @ [response_time] else slow_requests) ls)"

definition cmd_slow_requests :: "haproxy_log_file \<Rightarrow> int list" where
  "cmd_slow_requests self = slow_requests_loop [] (valid_lines self)"

text \<open>
  \<open>cmd_ip_counter\<close>. The \<open>defaultdict(int)\<close> is an association list in the order
  the keys were first inserted, which is the order a \<open>for\<close> loop over the dict visits
  them (CPython 3.7 and later; earlier interpreters give some other order, and the
  statements about \<open>top_ips_of_counter\<close> below range over every order).
  \<open>increment d k\<close> is \<open>d[k] += 1\<close>, a missing key starting at \<open>int() = 0\<close>.
  The slice \<open>[1:-1]\<close> drops the first and the last character.
\<close>

type_synonym counter = "(string \<times> int) list"

fun increment :: "counter \<Rightarrow> string \<Rightarrow> counter" where
  "increment [] k = [(k, 0 + 1)]"
| "increment ((k', c) # d) k =
     (if k' = k then (k', c + 1) # d else (k', c) # increment d k)"

fun ip_counter_loop :: "counter \<Rightarrow> log_line list \<Rightarrow> counter" where
  "ip_counter_loop ip_counter [] = ip_counter"
| "ip_counter_loop ip_counter (l # ls) =
     (case captured_request_headers l of
        None \<Rightarrow> ip_counter_loop ip_counter ls
      | Some headers \<Rightarrow>
          (let stripped_brackets = butlast (tl headers)
           in ip_counter_loop (increment ip_counter stripped_brackets) ls))"

definition cmd_ip_counter :: "haproxy_log_file \<Rightarrow> counter" where
  "cmd_ip_counter self = ip_counter_loop [] (valid_lines self)"

text \<open>
  \<open>cmd_top_ips\<close>. The local variables of the loop are the state; \<open>min_ip\<close> starts
  as \<open>None\<close>, \<open>min_repetitions\<close> as 99999.
\<close>

record top_ips_state =
  ips_list :: "ip_info list"
  min_repetitions :: int
  min_ip :: "string option"

definition top_ips_threshold :: int where
  "top_ips_threshold = 10"

definition top_ips_init :: top_ips_state where
  "top_ips_init = \<lparr> ips_list = [], min_repetitions = 99999, min_ip = None \<rparr>"

text \<open>
  The inner loop over \<open>enumerate(ips_list)\<close>: the first entry whose \<open>ip\<close> equals
  \<open>min_ip\<close> is overwritten, then \<open>break\<close>; without such an entry nothing changes.
\<close>

fun replace_min_ip :: "string option \<Rightarrow> ip_info \<Rightarrow> ip_info list \<Rightarrow> ip_info list" where
  "replace_min_ip m current_ip [] = []"
| "replace_min_ip m current_ip (ip_inf # rest) =
     (if Some (ip ip_inf) = m then current_ip # rest
      else ip_inf # replace_min_ip m current_ip rest)"

definition top_ips_step :: "top_ips_state \<Rightarrow> string \<times> int \<Rightarrow> top_ips_state" where
  "top_ips_step st item =
     (let key = fst item;
          reps = snd item;
          current_ip = \<lparr> ip = key, repetitions = reps \<rparr>
      in if int (length (ips_list st)) < top_ips_threshold
         then (let st1 = st\<lparr>ips_list := ips_list st @ [current_ip]\<rparr>
               in if reps < min_repetitions st1
                  then st1\<lparr>min_repetitions := reps, min_ip := Some key\<rparr>
                  else st1)
         else if reps > min_repetitions st
         then st\<lparr>ips_list := replace_min_ip (min_ip st) current_ip (ips_list st)\<rparr>
         else st)"

fun top_ips_loop :: "top_ips_state \<Rightarrow> counter \<Rightarrow> top_ips_state" where
  "top_ips_loop st [] = st"
| "top_ips_loop st (item # items) = top_ips_loop (top_ips_step st item) items"

definition top_ips_of_counter :: "counter \<Rightarrow> ip_info list" where
  "top_ips_of_counter ips_dict =
     sorted_py repetitions True (ips_list (top_ips_loop top_ips_init ips_dict))"

definition cmd_top_ips :: "haproxy_log_file \<Rightarrow> ip_info list" where
  "cmd_top_ips self = top_ips_of_counter (cmd_ip_counter self)"

text \<open>
  \<open>cmd_queue_peaks\<close>. The local variables are the state; \<open>line\<close> is the loop
  variable, unbound (\<open>None\<close> here) until the loop body has run once. The body is the
  four \<open>if\<close> statements of the source, one after the other.
\<close>

record queue_peaks_state =
  peaks :: "queue_peak list"
  current_peak :: int
  queue :: int
  current_span :: int
  first_on_queue :: "int option"
  line :: "log_line option"

definition queue_peaks_threshold :: int where
  "queue_peaks_threshold = 1"

definition queue_peaks_init :: queue_peaks_state where
  "queue_peaks_init =
     \<lparr> peaks = [], current_peak = 0, queue = 0, current_span = 0,
       first_on_queue = None, line = None \<rparr>"

definition queue_peaks_step :: "queue_peaks_state \<Rightarrow> log_line \<Rightarrow> queue_peaks_state" where
  "queue_peaks_step st l =
     (let st1 = st\<lparr>line := Some l, queue := queue_backend l\<rparr>;
          st2 = (if queue st1 > 0
                 then st1\<lparr>current_span := current_span st1 + 1\<rparr> else st1);
          st3 = (if queue st2 > 0 \<and> first_on_queue st2 = None
                 then st2\<lparr>first_on_queue := Some (accept_date l)\<rparr> else st2);
          st4 = (if queue st3 = 0 \<and> current_peak st3 > queue_peaks_threshold
                 then st3\<lparr>peaks := peaks st3 @
                              [\<lparr> peak = current_peak st3, span = current_span st3,
                                 first_date = first_on_queue st3,
                                 last_date = accept_date l \<rparr>],
                           current_peak := 0,
                           current_span := 0,
                           first_on_queue := None\<rparr>
                 else st3)
      in if queue st4 > current_peak st4 then st4\<lparr>current_peak := queue st4\<rparr> else st4)"

fun queue_peaks_loop :: "queue_peaks_state \<Rightarrow> log_line list \<Rightarrow> queue_peaks_state" where
  "queue_peaks_loop st [] = st"
| "queue_peaks_loop st (l # ls) = queue_peaks_loop (queue_peaks_step st l) ls"

text \<open>
  After the loop the source reads \<open>line.accept_date\<close>; with \<open>line\<close> unbound that
  would be a \<open>NameError\<close>, which is a branch here.
\<close>

definition cmd_queue_peaks :: "haproxy_log_file \<Rightarrow> py_error + queue_peak list" where
  "cmd_queue_peaks self =
     (let st = queue_peaks_loop queue_peaks_init (valid_lines self)
      in if queue st > 0 \<and> current_peak st > queue_peaks_threshold
         then (case line st of
                 None \<Rightarrow> Inl NameError
               | Some l \<Rightarrow>
                   Inr (peaks st @
                          [\<lparr> peak = current_peak st, span = current_span st,
                             first_date = first_on_queue st,
                             last_date = accept_date l \<rparr>]))
         else Inr (peaks st))"

section \<open>Auxiliary definitions for the statements\<close>

text \<open>
  What one run of \<open>parse_file\<close> adds to \<open>_valid_lines\<close> (before sorting) and to
  \<open>_invalid_lines\<close>, written as filters over the lines read.
\<close>

definition kept ::
  "(py_str \<Rightarrow> log_line) \<Rightarrow> haproxy_log_file \<Rightarrow> py_str list \<Rightarrow> log_line list" where
  "kept parser self content =
     filter (\<lambda>l. valid l \<and> is_in_time_range self l) (map (\<lambda>ln. parser (strip ln)) content)"

definition rejected :: "(py_str \<Rightarrow> log_line) \<Rightarrow> py_str list \<Rightarrow> py_str list" where
  "rejected parser content = filter (\<lambda>s. \<not> valid (parser s)) (map strip content)"

text \<open>
  A small instance for concrete runs: a parser that accepts the lines starting with
  \<open>t\<close>, takes the length of the line as its date and the sum of its code points as
  its status code; a file of four lines; a file system with this file, a file that
  cannot be decoded after its second line, and no other file; a store without time
  window; and a log line with a given date and queue length.
\<close>

definition example_parser :: "py_str \<Rightarrow> log_line" where
  "example_parser s =
     \<lparr> valid = (take 1 s = str ''t''),
       accept_date = int (length s),
       http_request_method = ''GET'',
       http_request_path = ''/'',
       status_code = int (sum_list s),
       time_wait_response = 1000 + int (length s),
       server_name = ''srv'',
       queue_backend = 0,
       captured_request_headers = None \<rparr>"

definition example_content :: "py_str list" where
  "example_content =
     [str ''tzzz\<newline>'', str ''junk\<newline>'', [0x2003, 0x1C] @ str ''tb\<newline>'', str ''ta'']"

definition example_opener :: file_system where
  "example_opener path =
     (if path = ''haproxy.log'' then Inr (example_content, None)
      else if path = ''broken.log'' then Inr (take 2 example_content, Some UnicodeDecodeError)
      else Inl FileNotFoundError)"

definition example_store :: haproxy_log_file where
  "example_store = HaproxyLogFile_init (Some ''haproxy.log'') None None"

definition example_line :: "int \<Rightarrow> int \<Rightarrow> log_line" where
  "example_line d q =
     \<lparr> valid = True, accept_date = d, http_request_method = ''GET'',
       http_request_path = ''/'', status_code = 200, time_wait_response = 3,
       server_name = ''srv'', queue_backend = q, captured_request_headers = None \<rparr>"

text \<open>
  A store whose valid lines have the given queue lengths, at the dates 10, 11, ...
\<close>

definition example_queue_store :: "int list \<Rightarrow> haproxy_log_file" where
  "example_queue_store qs =
     example_store\<lparr>valid_lines := map (\<lambda>(n, q). example_line (10 + int n) q) (enumerate 0 qs)\<rparr>"

text \<open>
  The runs, as the description of \<open>cmd_queue_peaks\<close> has them: "a series of log
  lines that are between log lines without being queued". \<open>run_before ls i\<close> is the
  run that ends just before position \<open>i\<close>: the lines before \<open>i\<close>, back to the
  nearest line of queue length 0, excluded. A run qualifies when one of its queue
  lengths exceeds the threshold, and its peak is its greatest queue length.
\<close>

definition run_before :: "log_line list \<Rightarrow> nat \<Rightarrow> log_line list" where
  "run_before ls i = rev (takeWhile (\<lambda>l. queue_backend l \<noteq> 0) (rev (take i ls)))"

definition run_qualifies :: "log_line list \<Rightarrow> bool" where
  "run_qualifies run = list_ex (\<lambda>l. queue_peaks_threshold < queue_backend l) run"

definition run_peak :: "log_line list \<Rightarrow> int" where
  "run_peak run = Max (set (map queue_backend run))"

text \<open>
  The positions that close a run inside the list: the line has queue length 0 and the
  run that ends just before it qualifies. Such a line is the first line of queue length
  0 after the run.
\<close>

definition closing_positions :: "log_line list \<Rightarrow> nat list" where
  "closing_positions ls =
     filter (\<lambda>i. queue_backend (ls ! i) = 0 \<and> run_qualifies (run_before ls i)) [0..<length ls]"

text \<open>
  What the description asks of the result, as pairs of a peak and a \<open>last\<close> date: one
  pair for each closing position, in order, with the peak of the run closed there and
  the date of the closing line; then, when the list ends with a positive queue length
  inside a run that qualifies, one pair with the peak of that run and the date of the
  last line.
\<close>

definition expected_closings :: "log_line list \<Rightarrow> (int \<times> int) list" where
  "expected_closings ls =
     map (\<lambda>i. (run_peak (run_before ls i), accept_date (ls ! i))) (closing_positions ls) @
     (if ls \<noteq> [] \<and> 0 < queue_backend (last ls) \<and> run_qualifies (run_before ls (length ls))
      then [(run_peak (run_before ls (length ls)), accept_date (last ls))]
      else [])"

text \<open>
  A log for a given counter: for each key, in order, as many valid lines as the counter
  says, each with the captured header \<open>{key}\<close>; and the store holding these lines.
\<close>

definition header_line :: "string \<Rightarrow> log_line" where
  "header_line k = (example_line 0 0)\<lparr>captured_request_headers := Some (''{'' @ k @ ''}'')\<rparr>"

definition lines_of_counter :: "counter \<Rightarrow> log_line list" where
  "lines_of_counter h = concat (map (\<lambda>(k, n). replicate (nat n) (header_line k)) h)"

definition store_of_counter :: "counter \<Rightarrow> haproxy_log_file" where
  "store_of_counter h = example_store\<lparr>valid_lines := lines_of_counter h\<rparr>"

text \<open>
  Two counters: twelve keys where the first has the smallest count and the last the
  greatest, and eleven keys whose counts are all above 99999.
\<close>

definition example_counter_12 :: counter where
  "example_counter_12 =
     [(''a'', 1), (''b'', 2), (''c'', 2), (''d'', 2), (''e'', 2), (''f'', 2),
      (''g'', 2), (''h'', 2), (''i'', 2), (''j'', 2), (''k'', 2), (''l'', 3)]"

definition example_counter_big :: counter where
  "example_counter_big =
     [(''a'', 100000), (''b'', 100001), (''c'', 100002), (''d'', 100003), (''e'', 100004),
      (''f'', 100005), (''g'', 100006), (''h'', 100007), (''i'', 100008), (''j'', 100009),
      (''k'', 200000)]"

text \<open>The entry that \<open>cmd_top_ips\<close> builds for an item of the counter.\<close>

definition ip_info_of :: "string \<times> int \<Rightarrow> ip_info" where
  "ip_info_of item = \<lparr> ip = fst item, repetitions = snd item \<rparr>"

section \<open>Ingestion: the result of a run\<close>

lemma is_in_time_range_window:
  "start_time s1 = start_time s2 \<Longrightarrow> end_time s1 = end_time s2 \<Longrightarrow>
   is_in_time_range s1 l = is_in_time_range s2 l"
  by (simp add: is_in_time_range_def split: option.splits)

lemma parse_lines_eq:
  "parse_lines parser self content =
     self\<lparr> total_lines := total_lines self + int (length content),
           valid_lines := valid_lines self @ kept parser self content,
           invalid_lines := invalid_lines self @ rejected parser content \<rparr>"
proof (induction content arbitrary: self)
  case Nil
  show ?case by (simp add: kept_def rejected_def)
next
  case (Cons ln rest)
  have w: "is_in_time_range (parse_line parser self ln) = is_in_time_range self"
    by (rule ext, rule is_in_time_range_window) (simp_all add: parse_line_def Let_def)
  have k: "kept parser (parse_line parser self ln) rest = kept parser self rest"
    by (simp add: kept_def w)
  show ?case
    by (simp add: Cons.IH k) (simp add: parse_line_def Let_def kept_def rejected_def w[unfolded parse_line_def Let_def] is_in_time_range_window[of "self\<lparr>total_lines := total_lines self + 1\<rparr>" self])
qed

lemma length_kept_rejected:
  "length (kept parser self content) + length (rejected parser content) \<le> length content"
proof -
  have "length (kept parser self content) \<le> length (filter (\<lambda>s. valid (parser s)) (map strip content))"
    unfolding kept_def by (induction content) auto
  moreover have "length (filter (\<lambda>s. valid (parser s)) (map strip content)) + length (rejected parser content) = length content"
    unfolding rejected_def using sum_length_filter_compl[of "\<lambda>s. valid (parser s)" "map strip content"] by simp
  ultimately show ?thesis by linarith
qed

lemma length_kept_rejected_unbounded:
  "start_time self = None \<Longrightarrow>
   length (kept parser self content) + length (rejected parser content) = length content"
  unfolding kept_def rejected_def by (induction content) (auto simp: is_in_time_range_def)

lemma valid_lines_sort_lines:
  "valid_lines (sort_lines self) = sort_key accept_date (valid_lines self)"
  by (simp add: sort_lines_def sorted_py_def)

lemma sort_lines_fields:
  "total_lines (sort_lines self) = total_lines self"
  "invalid_lines (sort_lines self) = invalid_lines self"
  "length (valid_lines (sort_lines self)) = length (valid_lines self)"
  by (simp_all add: sort_lines_def sorted_py_def)



lemma parse_file_read_fails:
  "logfile self = Some path \<Longrightarrow> opener path = Inr (content, Some e) \<Longrightarrow>
   parse_file parser opener self = (parse_lines parser self content, Some (FileError e))"
  by (simp add: parse_file_def)

lemma parse_file_returns:
  "logfile self = Some path \<Longrightarrow> opener path = Inr (content, None) \<Longrightarrow>
   parse_file parser opener self = (sort_lines (parse_lines parser self content), None)"
  by (simp add: parse_file_def)

text \<open>The object after the call: unchanged, or the lines read have been processed.\<close>

lemma parse_file_object:
  "fst (parse_file parser opener self) = self \<or>
   (\<exists>content. fst (parse_file parser opener self) = parse_lines parser self content \<or>
      fst (parse_file parser opener self) = sort_lines (parse_lines parser self content))"
  by (auto simp: parse_file_def Let_def split: option.splits sum.splits)

lemma parse_lines_counters:
  "cmd_counter (parse_lines parser self content) + cmd_counter_invalid (parse_lines parser self content)
     = cmd_counter self + cmd_counter_invalid self +
       int (length (kept parser self content) + length (rejected parser content))"
  "total_lines (parse_lines parser self content) = total_lines self + int (length content)"
  by (simp_all add: parse_lines_eq cmd_counter_def cmd_counter_invalid_def)

lemma sort_lines_counters:
  "cmd_counter (sort_lines self) = cmd_counter self"
  "cmd_counter_invalid (sort_lines self) = cmd_counter_invalid self"
  by (simp_all add: cmd_counter_def cmd_counter_invalid_def sort_lines_fields)

lemma parse_lines_keeps_bound:
  assumes "cmd_counter self + cmd_counter_invalid self \<le> total_lines self"
  shows "cmd_counter (parse_lines parser self content) +
           cmd_counter_invalid (parse_lines parser self content)
         \<le> total_lines (parse_lines parser self content)"
  using assms length_kept_rejected [of parser self content]
  unfolding parse_lines_counters by linarith

lemma parse_lines_keeps_equality:
  assumes "cmd_counter self + cmd_counter_invalid self = total_lines self"
    and "start_time self = None"
  shows "cmd_counter (parse_lines parser self content) +
           cmd_counter_invalid (parse_lines parser self content)
         = total_lines (parse_lines parser self content)"
  using assms(1) length_kept_rejected_unbounded [OF assms(2), of parser content]
  unfolding parse_lines_counters by linarith

text \<open>A later run on the same object keeps the bound.\<close>

lemma parse_file_keeps_bound:
  assumes "cmd_counter self + cmd_counter_invalid self \<le> total_lines self"
  shows "cmd_counter (fst (parse_file parser opener self)) +
           cmd_counter_invalid (fst (parse_file parser opener self))
         \<le> total_lines (fst (parse_file parser opener self))"
  using parse_file_object [of parser opener self] assms parse_lines_keeps_bound [OF assms]
  by (auto simp: sort_lines_counters sort_lines_fields)

lemma strip_examples:
  "map strip example_content = [str ''tzzz'', str ''junk'', str ''tb'', str ''ta'']"
  by (simp add: example_content_def str_def strip_def is_space_def)

lemma kept_map_strip:
  "kept parser self content =
     filter (\<lambda>l. valid l \<and> is_in_time_range self l) (map parser (map strip content))"
  by (simp add: kept_def comp_def)

lemma example_parser_fields:
  "valid (example_parser (str ''tzzz''))" "\<not> valid (example_parser (str ''junk''))"
  "valid (example_parser (str ''tb''))" "valid (example_parser (str ''ta''))"
  "accept_date (example_parser (str ''tzzz'')) = 4"
  "accept_date (example_parser (str ''tb'')) = 2" "accept_date (example_parser (str ''ta'')) = 2"
  "status_code (example_parser (str ''tb'')) = 214" "status_code (example_parser (str ''ta'')) = 213"
  by (simp_all add: example_parser_def str_def)

lemma example_store_fields:
  "logfile example_store = Some ''haproxy.log''" "start_time example_store = None"
  "total_lines example_store = 0" "valid_lines example_store = []"
  "invalid_lines example_store = []"
  by (simp_all add: example_store_def HaproxyLogFile_init_def)

lemma example_opener_files:
  "example_opener ''haproxy.log'' = Inr (example_content, None)"
  "example_opener ''broken.log'' = Inr ([str ''tzzz\<newline>'', str ''junk\<newline>''], Some UnicodeDecodeError)"
  "example_opener ''missing.log'' = Inl FileNotFoundError"
  by (simp_all add: example_opener_def example_content_def)

lemma example_kept:
  "kept example_parser example_store example_content =
     [example_parser (str ''tzzz''), example_parser (str ''tb''), example_parser (str ''ta'')]"
  by (simp add: kept_map_strip strip_examples example_parser_fields is_in_time_range_def
        example_store_fields)

lemma example_rejected: "rejected example_parser example_content = [str ''junk'']"
  by (simp add: rejected_def strip_examples example_parser_fields)

lemma example_kept_window:
  "kept example_parser (HaproxyLogFile_init (Some ''haproxy.log'') (Some 3) None) example_content =
     [example_parser (str ''tzzz'')]"
  by (simp add: kept_map_strip strip_examples example_parser_fields is_in_time_range_def
        HaproxyLogFile_init_def)

text \<open>
  Claim C5. After \<open>parse_file\<close> has run to its end, the valid lines are sorted in
  non-decreasing order of \<open>accept_date\<close>, whatever the order of the lines read; and
  the sort is stable: for every date \<open>d\<close>, the valid lines of date \<open>d\<close> are, in the
  same order, those that were appended in file order.
\<close>

theorem parse_file_sorts_valid_lines:
  assumes "parse_file parser opener self = (self', None)"
    and "logfile self = Some path"
    and "opener path = Inr (content, None)"
  shows "sorted (map accept_date (valid_lines self')) \<and>
         filter (\<lambda>l. accept_date l = d) (valid_lines self') =
           filter (\<lambda>l. accept_date l = d) (valid_lines self @ kept parser self content)"
proof -
  from assms have "self' = sort_lines (parse_lines parser self content)"
    by (simp add: parse_file_returns)
  then have v: "valid_lines self' = sort_key accept_date (valid_lines self @ kept parser self content)"
    by (simp add: valid_lines_sort_lines parse_lines_eq)
  show ?thesis unfolding v by (simp only: sorted_sort_key sort_key_stable simp_thms)
qed

theorem parse_file_sorts_valid_lines_witness:
  "parse_file example_parser example_opener example_store =
     (sort_lines (parse_lines example_parser example_store example_content), None) \<and>
   sorted (map accept_date
     (valid_lines (sort_lines (parse_lines example_parser example_store example_content)))) \<and>
   map status_code (filter (\<lambda>l. accept_date l = 2)
     (valid_lines (sort_lines (parse_lines example_parser example_store example_content))))
     = [214, 213]"
proof -
  have h: "parse_file example_parser example_opener example_store =
     (sort_lines (parse_lines example_parser example_store example_content), None)"
    by (rule parse_file_returns) (rule example_store_fields example_opener_files)+
  show ?thesis
    using h parse_file_sorts_valid_lines
      [OF h example_store_fields(1) example_opener_files(1), of 2]
    by (simp add: example_kept example_store_fields example_parser_fields)
qed

text \<open>
  Claim C7. After a call of \<open>parse_file\<close> on a new object, however the call ends,
  \<open>total_lines\<close> is at least the number of valid lines kept plus the number of
  invalid lines, and without a start time the two are equal; \<open>total_lines\<close> is the
  number of lines read from the file.
\<close>

theorem parse_file_total_lines:
  assumes "parse_file parser opener (HaproxyLogFile_init lf start dl) = (self', outcome)"
  shows "cmd_counter self' + cmd_counter_invalid self' \<le> total_lines self' \<and>
         (start = None \<longrightarrow> total_lines self' = cmd_counter self' + cmd_counter_invalid self') \<and>
         (lf = Some path \<and> opener path = Inr (content, err) \<longrightarrow>
            total_lines self' = int (length content))"
proof -
  let ?s = "HaproxyLogFile_init lf start dl"
  have i: "total_lines ?s = 0" "cmd_counter ?s = 0" "cmd_counter_invalid ?s = 0"
    "start_time ?s = start" "logfile ?s = lf"
    by (simp_all add: HaproxyLogFile_init_def cmd_counter_def cmd_counter_invalid_def)
  have s': "self' = fst (parse_file parser opener ?s)" using assms by simp
  have le: "cmd_counter self' + cmd_counter_invalid self' \<le> total_lines self'"
    unfolding s' by (rule parse_file_keeps_bound) (simp add: i)
  have eq: "total_lines self' = cmd_counter self' + cmd_counter_invalid self'" if "start = None"
  proof -
    have e: "cmd_counter (parse_lines parser ?s c) + cmd_counter_invalid (parse_lines parser ?s c)
           = total_lines (parse_lines parser ?s c)" for c
      by (rule parse_lines_keeps_equality)
         (simp_all add: that HaproxyLogFile_init_def cmd_counter_def cmd_counter_invalid_def)
    show ?thesis
      using parse_file_object [of parser opener ?s] e unfolding s'
      by (auto simp: sort_lines_counters sort_lines_fields i)
  qed
  have n: "total_lines self' = int (length content)"
    if "lf = Some path \<and> opener path = Inr (content, err)"
  proof -
    from that have l: "logfile ?s = Some path" and o: "opener path = Inr (content, err)"
      by (simp_all add: HaproxyLogFile_init_def)
    show ?thesis
    proof (cases err)
      case None
      with l o have "parse_file parser opener ?s =
          (sort_lines (parse_lines parser ?s content), None)"
        by (simp add: parse_file_def)
      then show ?thesis
        unfolding s' by (simp add: sort_lines_fields parse_lines_counters i)
    next
      case (Some e)
      with l o have "parse_file parser opener ?s =
          (parse_lines parser ?s content, Some (FileError e))"
        by (simp add: parse_file_def)
      then show ?thesis
        unfolding s' by (simp add: parse_lines_counters i)
    qed
  qed
  show ?thesis using le eq n by blast
qed

theorem parse_file_total_lines_witness:
  "(\<exists>self'. parse_file example_parser example_opener
               (HaproxyLogFile_init (Some ''haproxy.log'') None None) = (self', None) \<and>
            total_lines self' = 4 \<and> cmd_counter self' + cmd_counter_invalid self' = 4) \<and>
   (\<exists>self'. parse_file example_parser example_opener
               (HaproxyLogFile_init (Some ''haproxy.log'') (Some 3) None) = (self', None) \<and>
            total_lines self' = 4 \<and> cmd_counter self' + cmd_counter_invalid self' = 2) \<and>
   (\<exists>self'. parse_file example_parser example_opener
               (HaproxyLogFile_init (Some ''broken.log'') None None) =
                 (self', Some (FileError UnicodeDecodeError)) \<and>
            total_lines self' = 2 \<and> cmd_counter self' + cmd_counter_invalid self' = 2)"
proof -
  let ?a = "HaproxyLogFile_init (Some ''haproxy.log'') None None"
  let ?w = "HaproxyLogFile_init (Some ''haproxy.log'') (Some 3) None"
  let ?b = "HaproxyLogFile_init (Some ''broken.log'') None None"
  have lf: "logfile ?a = Some ''haproxy.log''" "logfile ?w = Some ''haproxy.log''"
    "logfile ?b = Some ''broken.log''"
    by (simp_all add: HaproxyLogFile_init_def)
  have a: "parse_file example_parser example_opener ?a =
      (sort_lines (parse_lines example_parser ?a example_content), None)"
    by (rule parse_file_returns) (rule lf example_opener_files)+
  have w: "parse_file example_parser example_opener ?w =
      (sort_lines (parse_lines example_parser ?w example_content), None)"
    by (rule parse_file_returns) (rule lf example_opener_files)+
  have b: "parse_file example_parser example_opener ?b =
      (parse_lines example_parser ?b [str ''tzzz\<newline>'', str ''junk\<newline>''],
       Some (FileError UnicodeDecodeError))"
    by (rule parse_file_read_fails) (rule lf example_opener_files)+
  have nw: "cmd_counter (sort_lines (parse_lines example_parser ?w example_content)) +
            cmd_counter_invalid (sort_lines (parse_lines example_parser ?w example_content)) = 2"
    by (simp add: sort_lines_counters parse_lines_counters example_kept_window example_rejected)
       (simp add: cmd_counter_def cmd_counter_invalid_def HaproxyLogFile_init_def)
  have len: "int (length example_content) = 4"
    by (simp add: example_content_def)
  show ?thesis
    using a b w nw
      parse_file_total_lines [OF a, of "''haproxy.log''" example_content None]
      parse_file_total_lines [OF w, of "''haproxy.log''" example_content None]
      parse_file_total_lines [OF b, of "''broken.log''"
        "[str ''tzzz\<newline>'', str ''junk\<newline>'']" "Some UnicodeDecodeError"]
    by (simp add: example_opener_files len)
qed




section \<open>Slow requests\<close>

lemma slow_requests_loop_eq:
  "slow_requests_loop acc ls =
     acc @ map time_wait_response (filter (\<lambda>l. time_wait_response l > 1000) ls)"
  by (induction ls arbitrary: acc) (simp_all add: Let_def)

text \<open>
  Claim C8. \<open>cmd_slow_requests\<close> returns the \<open>time_wait_response\<close> of the valid
  lines where it is strictly greater than 1000, in the order of the valid lines; a
  line with 1000 is left out, a line with 1001 is listed.
\<close>

theorem cmd_slow_requests_eq:
  "cmd_slow_requests self =
     map time_wait_response (filter (\<lambda>l. time_wait_response l > 1000) (valid_lines self)) \<and>
   cmd_slow_requests (self\<lparr>valid_lines := [l\<lparr>time_wait_response := 1000\<rparr>]\<rparr>) = [] \<and>
   cmd_slow_requests (self\<lparr>valid_lines := [l\<lparr>time_wait_response := 1001\<rparr>]\<rparr>) = [1001]"
  by (simp add: cmd_slow_requests_def slow_requests_loop_eq)

section \<open>The time window\<close>

lemma init_window:
  "start_time (HaproxyLogFile_init lf (Some s) dl) = Some s"
  "end_time (HaproxyLogFile_init lf (Some s) (Some d)) = Some (s + d)"
  "end_time (HaproxyLogFile_init lf (Some s) None) = None"
  "start_time (HaproxyLogFile_init lf None dl) = None"
  "end_time (HaproxyLogFile_init lf None dl) = None"
  by (simp_all add: HaproxyLogFile_init_def)

lemma is_in_time_range_iff:
  "is_in_time_range self l \<longleftrightarrow>
     (case start_time self of
        None \<Rightarrow> True
      | Some s \<Rightarrow> s \<le> accept_date l \<and>
          (case end_time self of None \<Rightarrow> True | Some e \<Rightarrow> accept_date l \<le> e))"
  by (auto simp: is_in_time_range_def split: option.splits)

text \<open>
  Claim C6, as stated, at an explicit input: an object built with start 10 and
  delta -5 has end time 5, and a line accepted at 10, the start time, is not in range.
\<close>

theorem start_boundary_excluded_counterexample:
  "start_time (HaproxyLogFile_init (Some ''haproxy.log'') (Some 10) (Some (- 5))) = Some 10 \<and>
   end_time (HaproxyLogFile_init (Some ''haproxy.log'') (Some 10) (Some (- 5))) = Some 5 \<and>
   accept_date (example_line 10 0) = 10 \<and>
   \<not> is_in_time_range (HaproxyLogFile_init (Some ''haproxy.log'') (Some 10) (Some (- 5)))
        (example_line 10 0)"
  by (simp add: is_in_time_range_def HaproxyLogFile_init_def example_line_def)

text \<open>
  Claim C6, amended. Without a start time every line is in range. With a start time,
  a line accepted strictly before it is out of range, and with an end time as well a line
  accepted strictly after the end time is out of range. A line accepted at the start time
  is in range when there is no end time or the end time is not before the start time; a
  line accepted at the end time is in range when the end time is not before the start
  time.
\<close>

theorem is_in_time_range_boundaries:
  "(start_time self = None \<longrightarrow> is_in_time_range self l) \<and>
   (start_time self = Some s \<and> accept_date l < s \<longrightarrow> \<not> is_in_time_range self l) \<and>
   (start_time self = Some s \<and> end_time self = Some e \<and> e < accept_date l \<longrightarrow>
      \<not> is_in_time_range self l) \<and>
   (start_time self = Some s \<and> end_time self = None \<and> accept_date l = s \<longrightarrow>
      is_in_time_range self l) \<and>
   (start_time self = Some s \<and> end_time self = Some e \<and> s \<le> e \<and> accept_date l = s \<longrightarrow>
      is_in_time_range self l) \<and>
   (start_time self = Some s \<and> end_time self = Some e \<and> s \<le> e \<and> accept_date l = e \<longrightarrow>
      is_in_time_range self l)"
  by (simp add: is_in_time_range_iff)

theorem is_in_time_range_boundaries_witness:
  "is_in_time_range (HaproxyLogFile_init (Some ''haproxy.log'') None None) (example_line 7 0) \<and>
   \<not> is_in_time_range (HaproxyLogFile_init (Some ''haproxy.log'') (Some 10) (Some 5)) (example_line 9 0) \<and>
   \<not> is_in_time_range (HaproxyLogFile_init (Some ''haproxy.log'') (Some 10) (Some 5)) (example_line 16 0) \<and>
   is_in_time_range (HaproxyLogFile_init (Some ''haproxy.log'') (Some 10) None) (example_line 10 0) \<and>
   is_in_time_range (HaproxyLogFile_init (Some ''haproxy.log'') (Some 10) (Some 5)) (example_line 10 0) \<and>
   is_in_time_range (HaproxyLogFile_init (Some ''haproxy.log'') (Some 10) (Some 5)) (example_line 15 0)"
proof -
  have d: "accept_date (example_line t q) = t" for t q
    by (simp add: example_line_def)
  show ?thesis
    using
      is_in_time_range_boundaries
        [of "HaproxyLogFile_init (Some ''haproxy.log'') None None" "example_line 7 0" 0 0]
      is_in_time_range_boundaries
        [of "HaproxyLogFile_init (Some ''haproxy.log'') (Some 10) (Some 5)" "example_line 9 0" 10 15]
      is_in_time_range_boundaries
        [of "HaproxyLogFile_init (Some ''haproxy.log'') (Some 10) (Some 5)" "example_line 16 0" 10 15]
      is_in_time_range_boundaries
        [of "HaproxyLogFile_init (Some ''haproxy.log'') (Some 10) None" "example_line 10 0" 10 0]
      is_in_time_range_boundaries
        [of "HaproxyLogFile_init (Some ''haproxy.log'') (Some 10) (Some 5)" "example_line 10 0" 10 15]
      is_in_time_range_boundaries
        [of "HaproxyLogFile_init (Some ''haproxy.log'') (Some 10) (Some 5)" "example_line 15 0" 10 15]
    by (simp add: init_window d)
qed

section \<open>Queue peaks\<close>

lemma queue_backend_example_line: "queue_backend (example_line d q) = q" "accept_date (example_line d q) = d"
  by (simp_all add: example_line_def)

lemma queue_peaks_step_zero:
  "queue_backend l = 0 \<Longrightarrow> queue_peaks_step st l =
     (if current_peak st > 1
      then st\<lparr>peaks := peaks st @
                  [\<lparr> peak = current_peak st, span = current_span st,
                     first_date = first_on_queue st, last_date = accept_date l \<rparr>],
               current_peak := 0, queue := 0, current_span := 0,
               first_on_queue := None, line := Some l\<rparr>
      else st\<lparr>current_peak := max (current_peak st) 0, queue := 0, line := Some l\<rparr>)"
  by (simp add: queue_peaks_step_def queue_peaks_threshold_def Let_def max_def)

lemma queue_peaks_step_pos:
  "queue_backend l > 0 \<Longrightarrow> queue_peaks_step st l =
     st\<lparr>current_peak := max (current_peak st) (queue_backend l),
        queue := queue_backend l,
        current_span := current_span st + 1,
        first_on_queue := (case first_on_queue st of None \<Rightarrow> Some (accept_date l) | Some d \<Rightarrow> Some d),
        line := Some l\<rparr>"
  by (cases "first_on_queue st") (simp_all add: queue_peaks_step_def queue_peaks_threshold_def Let_def max_def)

lemma example_queue_store_lines:
  "valid_lines (example_queue_store qs) =
     map (\<lambda>(n, q). example_line (10 + int n) q) (enumerate 0 qs)"
  by (simp add: example_queue_store_def)

text \<open>
  Claim C1. When the valid lines have the queue lengths 0, 2, 3, 0, 0, 5, 0,
  \<open>cmd_queue_peaks\<close> returns two records: peak 3 with span 2, from the second line to
  the fourth, and peak 5 with span 1, from the sixth line to the seventh. With the queue
  lengths 0, 1, 0 it returns the empty list.
\<close>

theorem cmd_queue_peaks_examples:
  "(map queue_backend (valid_lines self) = [0, 2, 3, 0, 0, 5, 0] \<longrightarrow>
      cmd_queue_peaks self =
        Inr [\<lparr> peak = 3, span = 2,
                first_date = Some (accept_date (valid_lines self ! 1)),
                last_date = accept_date (valid_lines self ! 3) \<rparr>,
             \<lparr> peak = 5, span = 1,
                first_date = Some (accept_date (valid_lines self ! 5)),
                last_date = accept_date (valid_lines self ! 6) \<rparr>]) \<and>
   (map queue_backend (valid_lines self) = [0, 1, 0] \<longrightarrow> cmd_queue_peaks self = Inr [])"
proof (intro conjI impI)
  assume "map queue_backend (valid_lines self) = [0, 2, 3, 0, 0, 5, 0]"
  then obtain l0 l1 l2 l3 l4 l5 l6 where
    ls: "valid_lines self = [l0, l1, l2, l3, l4, l5, l6]" and
    q: "queue_backend l0 = 0" "queue_backend l1 = 2" "queue_backend l2 = 3"
       "queue_backend l3 = 0" "queue_backend l4 = 0" "queue_backend l5 = 5"
       "queue_backend l6 = 0"
    by (auto simp: map_eq_Cons_conv)
  show "cmd_queue_peaks self =
        Inr [\<lparr> peak = 3, span = 2,
                first_date = Some (accept_date (valid_lines self ! 1)),
                last_date = accept_date (valid_lines self ! 3) \<rparr>,
             \<lparr> peak = 5, span = 1,
                first_date = Some (accept_date (valid_lines self ! 5)),
                last_date = accept_date (valid_lines self ! 6) \<rparr>]"
    by (simp add: cmd_queue_peaks_def ls q queue_peaks_step_zero queue_peaks_step_pos
          queue_peaks_init_def queue_peaks_threshold_def)
next
  assume "map queue_backend (valid_lines self) = [0, 1, 0]"
  then obtain l0 l1 l2 where
    ls: "valid_lines self = [l0, l1, l2]" and
    q: "queue_backend l0 = 0" "queue_backend l1 = 1" "queue_backend l2 = 0"
    by (auto simp: map_eq_Cons_conv)
  show "cmd_queue_peaks self = Inr []"
    by (simp add: cmd_queue_peaks_def ls q queue_peaks_step_zero queue_peaks_step_pos
          queue_peaks_init_def queue_peaks_threshold_def)
qed

theorem cmd_queue_peaks_examples_witness:
  "cmd_queue_peaks (example_queue_store [0, 2, 3, 0, 0, 5, 0]) =
     Inr [\<lparr> peak = 3, span = 2, first_date = Some 11, last_date = 13 \<rparr>,
          \<lparr> peak = 5, span = 1, first_date = Some 15, last_date = 16 \<rparr>] \<and>
   cmd_queue_peaks (example_queue_store [0, 1, 0]) = Inr []"
  using cmd_queue_peaks_examples [of "example_queue_store [0, 2, 3, 0, 0, 5, 0]"]
    cmd_queue_peaks_examples [of "example_queue_store [0, 1, 0]"]
  by (simp add: example_queue_store_lines queue_backend_example_line)

text \<open>
  Claim C10. With the queue lengths 0, 1, 0, 2, 0 exactly one record is returned; its
  span is 2 and its first date is the date of the second line (queue length 1), the
  counters of the run that was not reported having been kept.
\<close>

theorem cmd_queue_peaks_leak:
  assumes "map queue_backend (valid_lines self) = [0, 1, 0, 2, 0]"
  shows "cmd_queue_peaks self =
           Inr [\<lparr> peak = 2, span = 2,
                   first_date = Some (accept_date (valid_lines self ! 1)),
                   last_date = accept_date (valid_lines self ! 4) \<rparr>]"
proof -
  from assms obtain l0 l1 l2 l3 l4 where
    ls: "valid_lines self = [l0, l1, l2, l3, l4]" and
    q: "queue_backend l0 = 0" "queue_backend l1 = 1" "queue_backend l2 = 0"
       "queue_backend l3 = 2" "queue_backend l4 = 0"
    by (auto simp: map_eq_Cons_conv)
  show ?thesis
    by (simp add: cmd_queue_peaks_def ls q queue_peaks_step_zero queue_peaks_step_pos
          queue_peaks_init_def queue_peaks_threshold_def)
qed

theorem cmd_queue_peaks_leak_witness:
  "map queue_backend (valid_lines (example_queue_store [0, 1, 0, 2, 0])) = [0, 1, 0, 2, 0] \<and>
   accept_date (valid_lines (example_queue_store [0, 1, 0, 2, 0]) ! 1) = 11 \<and>
   accept_date (valid_lines (example_queue_store [0, 1, 0, 2, 0]) ! 3) = 13 \<and>
   cmd_queue_peaks (example_queue_store [0, 1, 0, 2, 0]) =
     Inr [\<lparr> peak = 2, span = 2, first_date = Some 11, last_date = 14 \<rparr>]"
proof -
  have h: "map queue_backend (valid_lines (example_queue_store [0, 1, 0, 2, 0])) = [0, 1, 0, 2, 0]"
    by (simp add: example_queue_store_lines queue_backend_example_line)
  show ?thesis
    using h cmd_queue_peaks_leak [OF h]
    by (simp add: example_queue_store_lines queue_backend_example_line)
qed

subsection \<open>The loop, one line at a time\<close>

lemma queue_peaks_loop_snoc:
  "queue_peaks_loop st (ls @ [l]) = queue_peaks_step (queue_peaks_loop st ls) l"
  by (induction ls arbitrary: st) simp_all

lemma queue_peaks_step_queue: "queue (queue_peaks_step st l) = queue_backend l"
  by (simp add: queue_peaks_step_def Let_def)

lemma queue_peaks_step_line: "line (queue_peaks_step st l) = Some l"
  by (simp add: queue_peaks_step_def Let_def)

lemma queue_peaks_step_peaks:
  "peaks (queue_peaks_step st l) =
     peaks st @
       (if queue_backend l = 0 \<and> 1 < current_peak st
        then [\<lparr> peak = current_peak st, span = current_span st,
                first_date = first_on_queue st, last_date = accept_date l \<rparr>]
        else [])"
  by (simp add: queue_peaks_step_def queue_peaks_threshold_def Let_def)

lemma queue_peaks_step_current_peak:
  "current_peak (queue_peaks_step st l) =
     (if queue_backend l = 0 \<and> 1 < current_peak st then 0
      else max (current_peak st) (queue_backend l))"
  by (simp add: queue_peaks_step_def queue_peaks_threshold_def Let_def max_def)

lemma queue_peaks_loop_line:
  "ls \<noteq> [] \<Longrightarrow> line (queue_peaks_loop queue_peaks_init ls) = Some (last ls) \<and>
     queue (queue_peaks_loop queue_peaks_init ls) = queue_backend (last ls)"
  by (induction ls rule: rev_induct)
     (simp_all add: queue_peaks_loop_snoc queue_peaks_step_line queue_peaks_step_queue)

lemma cmd_queue_peaks_eq:
  "cmd_queue_peaks self =
     (let st = queue_peaks_loop queue_peaks_init (valid_lines self)
      in Inr (peaks st @
           (if valid_lines self \<noteq> [] \<and> 0 < queue_backend (last (valid_lines self)) \<and>
               1 < current_peak st
            then [\<lparr> peak = current_peak st, span = current_span st,
                    first_date = first_on_queue st,
                    last_date = accept_date (last (valid_lines self)) \<rparr>]
            else [])))"
proof (cases "valid_lines self = []")
  case True
  then show ?thesis
    by (simp add: cmd_queue_peaks_def queue_peaks_init_def)
next
  case False
  then show ?thesis
    using queue_peaks_loop_line [OF False]
    by (simp add: cmd_queue_peaks_def queue_peaks_threshold_def Let_def)
qed

subsection \<open>Runs and the loop\<close>

lemma run_before_append: "i \<le> length ls \<Longrightarrow> run_before (ls @ ms) i = run_before ls i"
  by (simp add: run_before_def)

lemma run_before_snoc:
  "run_before (ls @ [l]) (Suc (length ls)) =
     (if queue_backend l = 0 then [] else run_before ls (length ls) @ [l])"
  by (simp add: run_before_def)

lemma run_qualifies_simps:
  "run_qualifies [] = False"
  "run_qualifies (run @ [l]) \<longleftrightarrow> run_qualifies run \<or> 1 < queue_backend l"
  by (auto simp: run_qualifies_def queue_peaks_threshold_def list_ex_iff)

lemma run_peak_snoc:
  "run_peak (run @ [l]) = (if run = [] then queue_backend l else max (run_peak run) (queue_backend l))"
  by (simp add: run_peak_def max.commute)

lemma run_qualifies_peak:
  assumes "run_qualifies run"
  shows "1 < run_peak run"
proof -
  from assms obtain l where l: "l \<in> set run" "1 < queue_backend l"
    by (auto simp: run_qualifies_def queue_peaks_threshold_def list_ex_iff)
  then have "queue_backend l \<le> Max (queue_backend ` set run)"
    by (intro Max_ge) simp_all
  with l(2) show ?thesis by (simp add: run_peak_def)
qed

lemma run_not_qualifies_peak: "\<not> run_qualifies run \<Longrightarrow> run \<noteq> [] \<Longrightarrow> run_peak run \<le> 1"
  by (auto simp: run_qualifies_def run_peak_def queue_peaks_threshold_def list_ex_iff not_less)

lemma closing_positions_bound: "i \<in> set (closing_positions ls) \<Longrightarrow> i < length ls"
  by (simp add: closing_positions_def)

lemma closing_positions_snoc:
  "closing_positions (ls @ [l]) =
     closing_positions ls @
       (if queue_backend l = 0 \<and> run_qualifies (run_before ls (length ls))
        then [length ls] else [])"
proof -
  have "filter (\<lambda>i. queue_backend ((ls @ [l]) ! i) = 0 \<and> run_qualifies (run_before (ls @ [l]) i))
          [0..<length ls] = closing_positions ls"
    unfolding closing_positions_def
    by (rule filter_cong) (simp_all add: nth_append run_before_append)
  then show ?thesis
    by (simp add: closing_positions_def run_before_append)
qed

lemma closings_map_snoc:
  "map (\<lambda>i. (run_peak (run_before (ls @ [l]) i), accept_date ((ls @ [l]) ! i))) (closing_positions ls)
     = map (\<lambda>i. (run_peak (run_before ls i), accept_date (ls ! i))) (closing_positions ls)"
  by (rule map_cong) (auto dest: closing_positions_bound simp: nth_append run_before_append)

text \<open>
  The invariant of the loop: the records so far are those of the closing positions so
  far; inside a run that qualifies \<open>current_peak\<close> is the peak of the run, and
  otherwise it is 0 or 1.
\<close>

lemma queue_peaks_loop_runs:
  "map (\<lambda>r. (peak r, last_date r)) (peaks (queue_peaks_loop queue_peaks_init ls)) =
     map (\<lambda>i. (run_peak (run_before ls i), accept_date (ls ! i))) (closing_positions ls) \<and>
   (if run_qualifies (run_before ls (length ls))
    then current_peak (queue_peaks_loop queue_peaks_init ls) = run_peak (run_before ls (length ls))
    else 0 \<le> current_peak (queue_peaks_loop queue_peaks_init ls) \<and>
         current_peak (queue_peaks_loop queue_peaks_init ls) \<le> 1)"
proof (induction ls rule: rev_induct)
  case Nil
  show ?case
    by (simp add: queue_peaks_init_def closing_positions_def run_before_def run_qualifies_simps)
next
  case (snoc l ls)
  let ?st = "queue_peaks_loop queue_peaks_init ls"
  let ?R = "run_before ls (length ls)"
  let ?cp = "current_peak ?st"
  from snoc.IH have
    recs: "map (\<lambda>r. (peak r, last_date r)) (peaks ?st) =
       map (\<lambda>i. (run_peak (run_before ls i), accept_date (ls ! i))) (closing_positions ls)"
    by simp
  from snoc.IH have q_cp: "?cp = run_peak ?R" if "run_qualifies ?R"
    using that by simp
  from snoc.IH have nq_cp: "0 \<le> ?cp \<and> ?cp \<le> 1" if "\<not> run_qualifies ?R"
    using that by simp
  have emit: "1 < ?cp \<longleftrightarrow> run_qualifies ?R"
    using q_cp nq_cp run_qualifies_peak [of ?R] by fastforce
  have len: "length (ls @ [l]) = Suc (length ls)" by simp
  show ?case
  proof (cases "queue_backend l = 0")
    case True
    have "map (\<lambda>r. (peak r, last_date r)) (peaks (queue_peaks_loop queue_peaks_init (ls @ [l]))) =
       map (\<lambda>i. (run_peak (run_before (ls @ [l]) i), accept_date ((ls @ [l]) ! i)))
         (closing_positions (ls @ [l]))"
      unfolding closing_positions_snoc map_append closings_map_snoc
      using True emit q_cp
      by (simp add: queue_peaks_loop_snoc queue_peaks_step_peaks recs run_before_append)
    moreover have "0 \<le> current_peak (queue_peaks_loop queue_peaks_init (ls @ [l])) \<and>
         current_peak (queue_peaks_loop queue_peaks_init (ls @ [l])) \<le> 1"
      using True emit nq_cp
      by (auto simp: queue_peaks_loop_snoc queue_peaks_step_current_peak)
    ultimately show ?thesis
      unfolding len run_before_snoc using True by (simp add: run_qualifies_simps)
  next
    case False
    have r: "map (\<lambda>r. (peak r, last_date r)) (peaks (queue_peaks_loop queue_peaks_init (ls @ [l]))) =
       map (\<lambda>i. (run_peak (run_before (ls @ [l]) i), accept_date ((ls @ [l]) ! i)))
         (closing_positions (ls @ [l]))"
      unfolding closing_positions_snoc map_append closings_map_snoc
      using False by (simp add: queue_peaks_loop_snoc queue_peaks_step_peaks recs)
    have cp': "current_peak (queue_peaks_loop queue_peaks_init (ls @ [l])) =
        max ?cp (queue_backend l)"
      using False by (simp add: queue_peaks_loop_snoc queue_peaks_step_current_peak)
    have R': "run_before (ls @ [l]) (Suc (length ls)) = ?R @ [l]"
      using False by (simp add: run_before_snoc)
    have c: "if run_qualifies (?R @ [l])
        then max ?cp (queue_backend l) = run_peak (?R @ [l])
        else 0 \<le> max ?cp (queue_backend l) \<and> max ?cp (queue_backend l) \<le> 1"
    proof (cases "run_qualifies ?R")
      case True
      then have "?R \<noteq> []" by (auto simp: run_qualifies_simps)
      with True show ?thesis
        by (simp add: run_qualifies_simps run_peak_snoc q_cp)
    next
      case nq: False
      show ?thesis
      proof (cases "1 < queue_backend l")
        case True
        have "run_peak (?R @ [l]) = queue_backend l"
          using run_not_qualifies_peak [OF nq] True by (auto simp: run_peak_snoc)
        then show ?thesis
          using True nq_cp [OF nq] by (simp add: run_qualifies_simps)
      next
        case False
        then show ?thesis
          using nq nq_cp [OF nq] by (auto simp: run_qualifies_simps max_def)
      qed
    qed
    show ?thesis
      unfolding len R' cp' using r c by simp
  qed
qed

lemma example_queue_store_lines_a:
  "valid_lines (example_queue_store [0, 3, 0, 3, 0]) =
     [example_line 10 0, example_line 11 3, example_line 12 0, example_line 13 3, example_line 14 0]"
  "valid_lines (example_queue_store [0, 2, 3, 0, 0, 5]) =
     [example_line 10 0, example_line 11 2, example_line 12 3, example_line 13 0,
      example_line 14 0, example_line 15 5]"
  by (simp_all add: example_queue_store_lines)

lemma expected_closings_examples:
  "expected_closings (valid_lines (example_queue_store [0, 3, 0, 3, 0])) = [(3, 12), (3, 14)]"
  "expected_closings (valid_lines (example_queue_store [0, 2, 3, 0, 0, 5])) = [(3, 13), (5, 15)]"
  unfolding example_queue_store_lines_a
  by (simp_all add: expected_closings_def closing_positions_def run_before_def run_qualifies_def
        run_peak_def queue_peaks_threshold_def queue_backend_example_line upt_rec_numeral)

text \<open>
  Claim C2. \<open>cmd_queue_peaks\<close> returns, and the peaks and \<open>last\<close> dates of its
  records are, record by record and in order, those of the runs that qualify: for a run
  closed inside the list, \<open>last\<close> is the date of the line of queue length 0 that
  follows the run directly, the first such line after the run; when the list ends with a
  positive queue length inside a run that qualifies, the last record has the date of the
  last line.
\<close>

theorem cmd_queue_peaks_last_date:
  "\<exists>ps. cmd_queue_peaks self = Inr ps \<and>
        map (\<lambda>r. (peak r, last_date r)) ps = expected_closings (valid_lines self)"
proof -
  let ?ls = "valid_lines self"
  let ?st = "queue_peaks_loop queue_peaks_init ?ls"
  have emit: "1 < current_peak ?st \<longleftrightarrow> run_qualifies (run_before ?ls (length ?ls))"
    using queue_peaks_loop_runs [of ?ls] run_qualifies_peak [of "run_before ?ls (length ?ls)"]
    by (auto split: if_splits)
  have cp: "current_peak ?st = run_peak (run_before ?ls (length ?ls))"
    if "run_qualifies (run_before ?ls (length ?ls))"
    using queue_peaks_loop_runs [of ?ls] that by simp
  have recs: "map (\<lambda>r. (peak r, last_date r)) (peaks ?st) =
     map (\<lambda>i. (run_peak (run_before ?ls i), accept_date (?ls ! i))) (closing_positions ?ls)"
    using queue_peaks_loop_runs [of ?ls] by blast
  show ?thesis
    unfolding cmd_queue_peaks_eq Let_def expected_closings_def
    using emit cp recs by simp
qed

theorem cmd_queue_peaks_last_date_witness:
  "(\<exists>ps. cmd_queue_peaks (example_queue_store [0, 3, 0, 3, 0]) = Inr ps \<and>
         map (\<lambda>r. (peak r, last_date r)) ps = [(3, 12), (3, 14)]) \<and>
   (\<exists>ps. cmd_queue_peaks (example_queue_store [0, 2, 3, 0, 0, 5]) = Inr ps \<and>
         map (\<lambda>r. (peak r, last_date r)) ps = [(3, 13), (5, 15)])"
  using cmd_queue_peaks_last_date [of "example_queue_store [0, 3, 0, 3, 0]"]
    cmd_queue_peaks_last_date [of "example_queue_store [0, 2, 3, 0, 0, 5]"]
  unfolding expected_closings_examples by simp

section \<open>Top IPs\<close>

subsection \<open>The counter of a log\<close>

lemma ip_counter_loop_append:
  "ip_counter_loop d (xs @ ys) = ip_counter_loop (ip_counter_loop d xs) ys"
  by (induction xs arbitrary: d) (simp_all split: option.splits)

lemma increment_new: "k \<notin> fst ` set d \<Longrightarrow> increment d k = d @ [(k, 1)]"
  by (induction d k rule: increment.induct) auto

lemma increment_last: "k \<notin> fst ` set d \<Longrightarrow> increment (d @ [(k, c)]) k = d @ [(k, c + 1)]"
  by (induction d k rule: increment.induct) auto

lemma ip_counter_loop_header_line:
  "ip_counter_loop d (header_line k # ls) = ip_counter_loop (increment d k) ls"
  by (simp add: header_line_def)

lemma ip_counter_loop_replicate:
  "k \<notin> fst ` set d \<Longrightarrow>
   ip_counter_loop d (replicate (Suc n) (header_line k)) = d @ [(k, 1 + int n)]"
proof (induction n)
  case 0
  then show ?case by (simp add: header_line_def increment_new)
next
  case (Suc n)
  have "replicate (Suc (Suc n)) (header_line k) = replicate (Suc n) (header_line k) @ [header_line k]"
    by (simp only: replicate_append_same) simp
  then show ?case
    using Suc by (simp only: ip_counter_loop_append)
      (simp add: header_line_def increment_last)
qed

lemma ip_counter_loop_lines_of_counter:
  "distinct (map fst h) \<Longrightarrow> list_all (\<lambda>item. 0 < snd item) h \<Longrightarrow>
   fst ` set d \<inter> fst ` set h = {} \<Longrightarrow>
   ip_counter_loop d (lines_of_counter h) = d @ h"
proof (induction h arbitrary: d)
  case Nil
  then show ?case by (simp add: lines_of_counter_def)
next
  case (Cons item h)
  obtain k n where item: "item = (k, n)" by (cases item)
  from Cons.prems item have n: "0 < n" and k: "k \<notin> fst ` set d" and kh: "k \<notin> fst ` set h"
    by auto
  from n obtain m where m: "nat n = Suc m" by (cases "nat n") auto
  then have nm: "1 + int m = n" using n by linarith
  have step: "ip_counter_loop d (replicate (nat n) (header_line k)) = d @ [(k, n)]"
    unfolding m using ip_counter_loop_replicate [OF k, of m] nm by simp
  have "ip_counter_loop d (lines_of_counter (item # h)) =
          ip_counter_loop (d @ [(k, n)]) (lines_of_counter h)"
    by (simp add: lines_of_counter_def item ip_counter_loop_append step)
  also have "\<dots> = (d @ [(k, n)]) @ h"
    using Cons.prems kh k by (intro Cons.IH) (auto simp: item)
  finally show ?case by (simp add: item)
qed

lemma cmd_ip_counter_store_of_counter:
  "distinct (map fst h) \<Longrightarrow> list_all (\<lambda>item. 0 < snd item) h \<Longrightarrow>
   cmd_ip_counter (store_of_counter h) = h"
  using ip_counter_loop_lines_of_counter [of h "[]"]
  by (simp add: cmd_ip_counter_def store_of_counter_def)

lemma example_counters_wf:
  "distinct (map fst example_counter_12)" "list_all (\<lambda>item. 0 < snd item) example_counter_12"
  "distinct (map fst example_counter_big)" "list_all (\<lambda>item. 0 < snd item) example_counter_big"
  "distinct (map snd example_counter_big)" "length example_counter_big = 11"
  by (simp_all add: example_counter_12_def example_counter_big_def)

subsection \<open>Length and order of the result\<close>

lemma top_ips_loop_snoc:
  "top_ips_loop st (items @ [item]) = top_ips_step (top_ips_loop st items) item"
  by (induction items arbitrary: st) simp_all

lemma length_replace_min_ip: "length (replace_min_ip m cur xs) = length xs"
  by (induction xs) simp_all

lemma top_ips_step_length:
  "length (ips_list st) \<le> 10 \<Longrightarrow> length (ips_list (top_ips_step st item)) \<le> 10"
  by (auto simp: top_ips_step_def top_ips_threshold_def Let_def length_replace_min_ip)

lemma top_ips_loop_length:
  "length (ips_list st) \<le> 10 \<Longrightarrow> length (ips_list (top_ips_loop st items)) \<le> 10"
  by (induction items arbitrary: st) (simp_all add: top_ips_step_length)

lemma length_sorted_py: "length (sorted_py key reverse xs) = length xs"
  by (simp add: sorted_py_def)

lemma set_sorted_py: "set (sorted_py key reverse xs) = set xs"
  by (simp add: sorted_py_def)

lemma sorted_py_descending: "sorted (rev (map key (sorted_py key True xs)))"
  by (simp add: sorted_py_def rev_map)

lemma top_ips_of_counter_bounded_sorted:
  "length (top_ips_of_counter h) \<le> 10 \<and> sorted (rev (map repetitions (top_ips_of_counter h)))"
  unfolding top_ips_of_counter_def
  using top_ips_loop_length [of top_ips_init h]
  by (simp add: length_sorted_py sorted_py_descending top_ips_init_def)

subsection \<open>Eleven keys, one of the first ten below 99999\<close>

text \<open>
  While the list is filled, \<open>min_repetitions\<close> is the least of 99999 and the counts
  seen, and once it is below 99999, \<open>min_ip\<close> is a key with that count.
\<close>

lemma top_ips_loop_fill:
  "length items \<le> 10 \<Longrightarrow>
   ips_list (top_ips_loop top_ips_init items) = map ip_info_of items \<and>
   min_repetitions (top_ips_loop top_ips_init items) = Min (insert 99999 (snd ` set items)) \<and>
   (min_repetitions (top_ips_loop top_ips_init items) < 99999 \<longrightarrow>
      (\<exists>k. min_ip (top_ips_loop top_ips_init items) = Some k \<and>
           (k, min_repetitions (top_ips_loop top_ips_init items)) \<in> set items))"
proof (induction items rule: rev_induct)
  case Nil
  show ?case by (simp add: top_ips_init_def)
next
  case (snoc item items)
  let ?st = "top_ips_loop top_ips_init items"
  from snoc.prems have len: "length items < 10" by simp
  then have "length items \<le> 10" by simp
  note ih = snoc.IH [OF this]
  have l: "ips_list ?st = map ip_info_of items"
    and m: "min_repetitions ?st = Min (insert 99999 (snd ` set items))"
    using ih by blast+
  have w: "\<exists>k. min_ip ?st = Some k \<and> (k, min_repetitions ?st) \<in> set items"
    if "min_repetitions ?st < 99999"
    using ih that by blast
  have fill: "int (length (ips_list ?st)) < top_ips_threshold"
    using len by (simp add: l top_ips_threshold_def)
  have "insert 99999 (snd ` set (items @ [item])) =
          insert (snd item) (insert 99999 (snd ` set items))"
    by auto
  moreover have "Min (insert (snd item) (insert 99999 (snd ` set items))) =
          min (snd item) (Min (insert 99999 (snd ` set items)))"
    by (rule Min_insert) simp_all
  ultimately have mn:
    "Min (insert 99999 (snd ` set (items @ [item]))) = min (snd item) (min_repetitions ?st)"
    unfolding m by (simp only:)
  show ?case
  proof (cases "snd item < min_repetitions ?st")
    case True
    then have st: "top_ips_step ?st item =
        ?st\<lparr>ips_list := ips_list ?st @ [ip_info_of item], min_repetitions := snd item,
            min_ip := Some (fst item)\<rparr>"
      using fill by (simp add: top_ips_step_def Let_def ip_info_of_def)
    show ?thesis
      unfolding top_ips_loop_snoc st mn using True by (simp add: l)
  next
    case False
    then have st: "top_ips_step ?st item = ?st\<lparr>ips_list := ips_list ?st @ [ip_info_of item]\<rparr>"
      using fill by (simp add: top_ips_step_def Let_def ip_info_of_def)
    show ?thesis
      unfolding top_ips_loop_snoc st mn using False w by (auto simp: l)
  qed
qed

lemma set_replace_min_ip:
  "distinct (map fst items) \<Longrightarrow> (k, m) \<in> set items \<Longrightarrow>
   set (replace_min_ip (Some k) cur (map ip_info_of items)) =
     insert cur (ip_info_of ` (set items - {(k, m)}))"
proof (induction items)
  case Nil
  then show ?case by simp
next
  case (Cons item items)
  show ?case
  proof (cases "fst item = k")
    case True
    with Cons.prems have "item = (k, m)" and "item \<notin> set items"
      by (auto simp: image_iff rev_image_eqI)
    then show ?thesis by (simp add: ip_info_of_def)
  next
    case False
    with Cons.prems have "(k, m) \<in> set items" "distinct (map fst items)" "item \<noteq> (k, m)"
      by auto
    with Cons.IH False show ?thesis
      by (auto simp: ip_info_of_def)
  qed
qed

text \<open>
  For eleven distinct keys with distinct counts, one of the first ten counts being below
  99999, the result has ten entries: all items but the one with the least count.
\<close>

lemma top_ips_of_counter_eleven:
  assumes len: "length h = 11"
    and dk: "distinct (map fst h)"
    and dc: "distinct (map snd h)"
    and below: "\<exists>c \<in> set (map snd (take 10 h)). c < 99999"
  shows "length (top_ips_of_counter h) = 10 \<and>
         set (top_ips_of_counter h) = ip_info_of ` {item \<in> set h. Min (snd ` set h) < snd item}"
proof -
  define h10 where "h10 = take 10 h"
  have "length (drop 10 h) = Suc 0" using len by simp
  then obtain x where x: "drop 10 h = [x]"
    by (cases "drop 10 h") (auto simp del: length_drop)
  have h: "h = h10 @ [x]"
    unfolding h10_def x [symmetric] by simp
  have l10: "length h10 = 10"
    unfolding h10_def using len by simp
  let ?st = "top_ips_loop top_ips_init h10"
  define m10 where "m10 = min_repetitions ?st"
  have fill: "ips_list ?st = map ip_info_of h10"
    "m10 = Min (insert 99999 (snd ` set h10))"
    using top_ips_loop_fill [of h10] l10 unfolding m10_def by simp_all
  from below obtain c where c: "c \<in> snd ` set h10" "c < 99999"
    unfolding h10_def by auto
  have m_le: "m10 \<le> y" if "y \<in> snd ` set h10" for y
    unfolding fill(2) using that by (intro Min_le) simp_all
  then have m_lt: "m10 < 99999" using c by force
  then obtain km where km: "min_ip ?st = Some km" "(km, m10) \<in> set h10"
    using top_ips_loop_fill [of h10] l10 unfolding m10_def by auto
  have inj: "inj_on snd (set h)" and dist: "distinct h"
    using dc by (simp_all add: distinct_map)
  have x_new: "x \<notin> set h10" using dist unfolding h by simp
  have dk10: "distinct (map fst h10)" using dk unfolding h by simp
  have full: "\<not> int (length (ips_list ?st)) < top_ips_threshold"
    by (simp add: fill(1) l10 top_ips_threshold_def)
  have only: "item = (km, m10)" if "item \<in> set h" "snd item = m10" for item
  proof -
    have "(km, m10) \<in> set h" using km(2) unfolding h by simp
    with inj_onD [OF inj, of item "(km, m10)"] that show ?thesis by simp
  qed
  have res: "top_ips_of_counter h =
      sorted_py repetitions True (ips_list (top_ips_step ?st x))"
    by (simp add: top_ips_of_counter_def h top_ips_loop_snoc)
  show ?thesis
  proof (cases "m10 < snd x")
    case True
    have step: "ips_list (top_ips_step ?st x) =
        replace_min_ip (Some km) (ip_info_of x) (map ip_info_of h10)"
      using True full
      by (simp add: top_ips_step_def Let_def km(1) fill(1) ip_info_of_def m10_def)
    have "Min (snd ` set h) = m10"
    proof (rule Min_eqI)
      show "finite (snd ` set h)" by simp
      show "m10 \<le> y" if "y \<in> snd ` set h" for y
        using that m_le True unfolding h by auto
      show "m10 \<in> snd ` set h" using km(2) unfolding h by force
    qed
    moreover have "{item \<in> set h. m10 < snd item} = insert x (set h10 - {(km, m10)})"
    proof -
      have "m10 < snd item \<longleftrightarrow> item \<noteq> (km, m10)" if "item \<in> set h" for item
      proof -
        have "m10 \<le> snd item" using that m_le True unfolding h by auto
        moreover have "snd item = m10 \<Longrightarrow> item = (km, m10)" by (rule only [OF that])
        ultimately show ?thesis by (cases "snd item = m10") auto
      qed
      moreover have "x \<noteq> (km, m10)" using x_new km(2) by auto
      ultimately show ?thesis unfolding h by auto
    qed
    ultimately show ?thesis
      unfolding res step
      by (simp add: length_sorted_py set_sorted_py length_replace_min_ip l10
            set_replace_min_ip [OF dk10 km(2)])
  next
    case False
    have step: "ips_list (top_ips_step ?st x) = map ip_info_of h10"
      using False full by (simp add: top_ips_step_def Let_def fill(1) m10_def)
    have ne: "snd x \<noteq> m10"
      using only [of x] x_new km(2) unfolding h by auto
    with False have lt: "snd x < m10" by simp
    have "Min (snd ` set h) = snd x"
    proof (rule Min_eqI)
      show "finite (snd ` set h)" by simp
      show "snd x \<le> y" if "y \<in> snd ` set h" for y
        using that m_le lt unfolding h by force
      show "snd x \<in> snd ` set h" unfolding h by simp
    qed
    moreover have "{item \<in> set h. snd x < snd item} = set h10"
      using m_le lt unfolding h by force
    ultimately show ?thesis
      unfolding res step by (simp add: length_sorted_py set_sorted_py l10)
  qed
qed

subsection \<open>Two runs\<close>

lemma top_ips_of_counter_12:
  "top_ips_of_counter example_counter_12 =
     [\<lparr>ip = ''k'', repetitions = 2\<rparr>, \<lparr>ip = ''b'', repetitions = 2\<rparr>,
      \<lparr>ip = ''c'', repetitions = 2\<rparr>, \<lparr>ip = ''d'', repetitions = 2\<rparr>, \<lparr>ip = ''e'', repetitions = 2\<rparr>,
      \<lparr>ip = ''f'', repetitions = 2\<rparr>, \<lparr>ip = ''g'', repetitions = 2\<rparr>, \<lparr>ip = ''h'', repetitions = 2\<rparr>,
      \<lparr>ip = ''i'', repetitions = 2\<rparr>, \<lparr>ip = ''j'', repetitions = 2\<rparr>]"
  by (simp add: top_ips_of_counter_def example_counter_12_def top_ips_step_def top_ips_init_def
        top_ips_threshold_def sorted_py_def Let_def)

lemma top_ips_loop_12:
  "min_ip (top_ips_loop top_ips_init example_counter_12) = Some ''a'' \<and>
   min_repetitions (top_ips_loop top_ips_init example_counter_12) = 1 \<and>
   map ip (ips_list (top_ips_loop top_ips_init example_counter_12)) =
     [''k'', ''b'', ''c'', ''d'', ''e'', ''f'', ''g'', ''h'', ''i'', ''j'']"
  by (simp add: example_counter_12_def top_ips_step_def top_ips_init_def
        top_ips_threshold_def Let_def)

lemma top_ips_of_counter_big:
  "top_ips_of_counter example_counter_big =
     [\<lparr>ip = ''j'', repetitions = 100009\<rparr>, \<lparr>ip = ''i'', repetitions = 100008\<rparr>,
      \<lparr>ip = ''h'', repetitions = 100007\<rparr>, \<lparr>ip = ''g'', repetitions = 100006\<rparr>,
      \<lparr>ip = ''f'', repetitions = 100005\<rparr>, \<lparr>ip = ''e'', repetitions = 100004\<rparr>,
      \<lparr>ip = ''d'', repetitions = 100003\<rparr>, \<lparr>ip = ''c'', repetitions = 100002\<rparr>,
      \<lparr>ip = ''b'', repetitions = 100001\<rparr>, \<lparr>ip = ''a'', repetitions = 100000\<rparr>]"
  by (simp add: top_ips_of_counter_def example_counter_big_def top_ips_step_def top_ips_init_def
        top_ips_threshold_def sorted_py_def Let_def)

text \<open>
  Claim C3, at a log with eleven distinct keys \<open>a\<close> to \<open>k\<close>, first seen in this
  order, with the distinct counts 100000 to 100009 and 200000: \<open>cmd_top_ips\<close> returns
  the ten keys \<open>j\<close> down to \<open>a\<close>. The key left out is \<open>k\<close>, which has the greatest
  count, and the key \<open>a\<close> with the least count is returned.
\<close>

theorem cmd_top_ips_sentinel:
  "length (cmd_ip_counter (store_of_counter example_counter_big)) = 11 \<and>
   distinct (map fst (cmd_ip_counter (store_of_counter example_counter_big))) \<and>
   distinct (map snd (cmd_ip_counter (store_of_counter example_counter_big))) \<and>
   (''k'', 200000) \<in> set (cmd_ip_counter (store_of_counter example_counter_big)) \<and>
   Max (snd ` set (cmd_ip_counter (store_of_counter example_counter_big))) = 200000 \<and>
   Min (snd ` set (cmd_ip_counter (store_of_counter example_counter_big))) = 100000 \<and>
   map ip (cmd_top_ips (store_of_counter example_counter_big)) =
     [''j'', ''i'', ''h'', ''g'', ''f'', ''e'', ''d'', ''c'', ''b'', ''a'']"
proof -
  have c: "cmd_ip_counter (store_of_counter example_counter_big) = example_counter_big"
    by (rule cmd_ip_counter_store_of_counter) (rule example_counters_wf)+
  have t: "cmd_top_ips (store_of_counter example_counter_big) = top_ips_of_counter example_counter_big"
    by (simp add: cmd_top_ips_def c)
  show ?thesis
    unfolding t c top_ips_of_counter_big by (simp add: example_counter_big_def)
qed

text \<open>
  Claim C4. There is a log, with distinct keys in its counter, for which
  \<open>cmd_top_ips\<close> returns ten entries, one of them with a count strictly smaller than
  the count of a key that is not returned; at the end of the loop \<open>min_ip\<close> is a key
  that is no longer in the list.
\<close>

theorem cmd_top_ips_keeps_smaller_key:
  "\<exists>self kept omitted.
     distinct (map fst (cmd_ip_counter self)) \<and>
     kept \<in> set (cmd_top_ips self) \<and>
     omitted \<in> set (cmd_ip_counter self) \<and>
     fst omitted \<notin> set (map ip (cmd_top_ips self)) \<and>
     repetitions kept < snd omitted \<and>
     length (cmd_top_ips self) = 10 \<and>
     (\<exists>evicted. min_ip (top_ips_loop top_ips_init (cmd_ip_counter self)) = Some evicted \<and>
        evicted \<notin> set (map ip (ips_list (top_ips_loop top_ips_init (cmd_ip_counter self)))))"
proof -
  let ?self = "store_of_counter example_counter_12"
  have c: "cmd_ip_counter ?self = example_counter_12"
    by (rule cmd_ip_counter_store_of_counter) (rule example_counters_wf)+
  have t: "cmd_top_ips ?self = top_ips_of_counter example_counter_12"
    by (simp add: cmd_top_ips_def c)
  have "distinct (map fst (cmd_ip_counter ?self))"
    unfolding c by (rule example_counters_wf)
  moreover have "\<lparr>ip = ''b'', repetitions = 2\<rparr> \<in> set (cmd_top_ips ?self)"
    unfolding t top_ips_of_counter_12 by simp
  moreover have "(''l'', 3) \<in> set (cmd_ip_counter ?self)"
    unfolding c by (simp add: example_counter_12_def)
  moreover have "fst (''l'', 3::int) \<notin> set (map ip (cmd_top_ips ?self))"
    unfolding t top_ips_of_counter_12 by simp
  moreover have "repetitions \<lparr>ip = ''b'', repetitions = 2\<rparr> < snd (''l'', 3::int)"
    by simp
  moreover have "length (cmd_top_ips ?self) = 10"
    unfolding t top_ips_of_counter_12 by simp
  moreover have "\<exists>evicted. min_ip (top_ips_loop top_ips_init (cmd_ip_counter ?self)) = Some evicted \<and>
        evicted \<notin> set (map ip (ips_list (top_ips_loop top_ips_init (cmd_ip_counter ?self))))"
    unfolding c using top_ips_loop_12 by simp
  ultimately show ?thesis by blast
qed

end
